theory Spec2Isabelle
  imports Main
begin

section \<open>Strings and command-name normalisation\<close>

text \<open>
  Command names are JavaScript strings. They are modelled as \<^typ>\<open>string\<close>, a
  \<^typ>\<open>char\<close> being a code unit from 0 to 255 (Basic Latin and Latin-1 Supplement). On
  these code units \<open>String.prototype.toLowerCase\<close> works character by character and
  stays within the range: the capitals \<open>A\<close> to \<open>Z\<close> (codes 65 to 90), \<open>U+00C0\<close> to
  \<open>U+00D6\<close> (192 to 214) and \<open>U+00D8\<close> to \<open>U+00DE\<close> (216 to 222) move up by 32 to
  their small letters; every other code unit, the multiplication sign 215 and the sharp s
  223 among them, is kept. Strings with code units above 255 are outside the model.
  The regular-expression replacement \<open>replace(/^\/+/, '')\<close> deletes the longest prefix
  made of slash characters.
\<close>

definition toLowerCaseChar :: "char \<Rightarrow> char" where
  "toLowerCaseChar c =
     (let n = (of_char c :: nat)
      in if (65 \<le> n \<and> n \<le> 90) \<or> (192 \<le> n \<and> n \<le> 214) \<or> (216 \<le> n \<and> n \<le> 222)
         then char_of (n + 32) else c)"

definition toLowerCase :: "string \<Rightarrow> string" where
  "toLowerCase s = map toLowerCaseChar s"

definition stripLeadingSlashes :: "string \<Rightarrow> string" where
  "stripLeadingSlashes s = dropWhile (\<lambda>c. c = CHR ''/'') s"

text \<open>The normalisation written out in \<open>createCommand\<close> and \<open>handlePlayerCommand\<close>:
  \<open>command.replace(/^\/+/, '').toLowerCase()\<close>.\<close>

definition normalizeName :: "string \<Rightarrow> string" where
  "normalizeName s = toLowerCase (stripLeadingSlashes s)"


section \<open>JavaScript \<open>Map\<close> objects\<close>

text \<open>
  A \<open>Map\<close> keeps its entries in insertion order, and \<open>getBotByToken\<close> scans the values in
  that order, so a map is an association list. \<open>set\<close> on a key already present replaces
  the value where it stands, otherwise the entry goes to the end.
\<close>

type_synonym ('k, 'v) jsmap = "('k \<times> 'v) list"

definition jsmap_get :: "('k, 'v) jsmap \<Rightarrow> 'k \<Rightarrow> 'v option" where
  "jsmap_get m k = map_of m k"

definition jsmap_has :: "('k, 'v) jsmap \<Rightarrow> 'k \<Rightarrow> bool" where
  "jsmap_has m k = (k \<in> set (map fst m))"

fun jsmap_set :: "'k \<Rightarrow> 'v \<Rightarrow> ('k, 'v) jsmap \<Rightarrow> ('k, 'v) jsmap" where
  "jsmap_set k v [] = [(k, v)]"
| "jsmap_set k v (p # ps) = (if fst p = k then (k, v) # ps else p # jsmap_set k v ps)"

definition jsmap_delete :: "'k \<Rightarrow> ('k, 'v) jsmap \<Rightarrow> ('k, 'v) jsmap" where
  "jsmap_delete k m = filter (\<lambda>p. fst p \<noteq> k) m"

definition jsmap_values :: "('k, 'v) jsmap \<Rightarrow> 'v list" where
  "jsmap_values m = map snd m"


section \<open>Data model\<close>

text \<open>
  A bot's \<open>id\<close> is the string \<open>String(this.nextId++)\<close>, the decimal rendering of a
  natural number; the model keeps the number, so \<open>getBotById\<close>'s \<open>String(id)\<close> and
  \<open>Number(bot.id)\<close> are both the identity. \<open>webhook\<close> is a string or \<open>null\<close>.

  The counter \<open>nextId\<close> is an IEEE double: adding 1 is exact below \<open>2^53\<close>, and at
  \<open>2^53\<close> the sum rounds back to \<open>2^53\<close>, so the counter stops there. Counters above
  \<open>2^53\<close> do not arise from \<open>createBot\<close> and are not modelled.
\<close>

definition js_succ :: "nat \<Rightarrow> nat" where
  "js_succ n = (if n < 2 ^ 53 then n + 1 else n)"

record bot =
  bot_id :: nat
  bot_name :: string
  bot_token :: string
  bot_role :: string
  bot_webhook :: "string option"
  bot_commands :: "string list"
  bot_created_at :: string

text \<open>The "internal command object" of \<open>CommandProxy\<close>.\<close>

record command_meta =
  cmd_command :: string
  cmd_description :: string
  cmd_ownerId :: nat
  cmd_callback :: "string option"
  cmd_webhook :: bool
  cmd_created_at :: string

text \<open>
  The flat document \<open>vynixc_commands.json\<close>. \<open>saveToStorage\<close> writes an object with the
  keys \<open>nextId\<close> and \<open>bots\<close>, \<open>saveCommands\<close> writes an object with the key \<open>commands\<close>;
  a key that is not in the object reads as \<open>undefined\<close>, here \<open>None\<close>.
  \<open>JSON.stringify\<close> followed by \<open>JSON.parse\<close> is taken to give back the same fields.
\<close>

record json_doc =
  doc_nextId :: "nat option"
  doc_bots :: "bot list option"
  doc_commands :: "command_meta list option"

text \<open>
  The sqlite file \<open>vynixc_data.sqlite\<close>: the tables \<open>bots (id, json)\<close> and
  \<open>commands (name, json)\<close>, rows in the order they were inserted. The driver runs the
  statements later, in the order they were issued (\<open>db.serialize\<close>); the model takes
  each statement, and the callback that receives the loaded rows, to have completed
  before the next operation starts.
\<close>

record sqlite_db =
  tbl_bots :: "(nat \<times> bot) list"
  tbl_commands :: "(string \<times> command_meta) list"

text \<open>
  The state of a \<open>BotManager\<close> with its \<open>CommandProxy\<close>, and the two files under
  \<open>vynixc_data\<close> (\<open>None\<close>: the file does not exist).
\<close>

record state =
  bots :: "(nat, bot) jsmap"
  nextId :: nat
  commands :: "(string, command_meta) jsmap"
  json_file :: "json_doc option"
  sqlite_file :: "sqlite_db option"

text \<open>The errors thrown, named as in the specification's taxonomy:
  \<open>Invalid bot token\<close>, \<open>Invalid command\<close>, \<open>Command already exists\<close>,
  \<open>Bot permission denied\<close>, \<open>Exec error: ...\<close>, and a value thrown by the host runtime.\<close>

datatype js_thrown = ThrownNullish | ThrownValue string

datatype error =
    InvalidToken
  | InvalidName
  | DuplicateName
  | PermissionDenied
  | ExecutionError string
  | HostError js_thrown


section \<open>Persistence\<close>

text \<open>\<open>REPLACE INTO t (key, json) VALUES (?, ?)\<close>: a row with the same primary key is
  deleted, then the new row is inserted.\<close>

definition sql_replace :: "'k \<Rightarrow> 'v \<Rightarrow> ('k \<times> 'v) list \<Rightarrow> ('k \<times> 'v) list" where
  "sql_replace k v t = filter (\<lambda>r. fst r \<noteq> k) t @ [(k, v)]"

definition sql_open :: "sqlite_db option \<Rightarrow> sqlite_db" where
  "sql_open f = (case f of None \<Rightarrow> \<lparr>tbl_bots = [], tbl_commands = []\<rparr> | Some d \<Rightarrow> d)"

text \<open>The first argument of the operations below is the module constant \<open>sqlite3\<close>:
  whether the optional driver could be loaded. The file system is taken to work: the
  \<open>catch\<close> branches, which log a failed read or write and go on, are not modelled.\<close>

definition saveToStorage :: "bool \<Rightarrow> state \<Rightarrow> state" where
  "saveToStorage sqlite3 s =
     (if sqlite3 then
        (let db = sql_open (sqlite_file s)
         in s\<lparr>sqlite_file :=
              Some (db\<lparr>tbl_bots := fold (\<lambda>(i, b) t. sql_replace i b t) (bots s) (tbl_bots db)\<rparr>)\<rparr>)
      else
        s\<lparr>json_file :=
            Some \<lparr>doc_nextId = Some (nextId s),
                  doc_bots = Some (jsmap_values (bots s)),
                  doc_commands = None\<rparr>\<rparr>)"

definition saveCommands :: "bool \<Rightarrow> state \<Rightarrow> state" where
  "saveCommands sqlite3 s =
     (if sqlite3 then
        (let db = sql_open (sqlite_file s)
         in s\<lparr>sqlite_file :=
              Some (db\<lparr>tbl_commands :=
                         fold (\<lambda>(n, c) t. sql_replace n c t) (commands s) (tbl_commands db)\<rparr>)\<rparr>)
      else
        s\<lparr>json_file :=
            Some \<lparr>doc_nextId = None, doc_bots = None, doc_commands = Some (jsmap_values (commands s))\<rparr>\<rparr>)"

text \<open>The bodies of the loading loops: \<open>this.bots.set(bot.id, bot)\<close>, for a sqlite row
  followed by \<open>this.nextId = Math.max(this.nextId, Number(bot.id) + 1)\<close>, and
  \<open>this.commands.set(cmd.command, cmd)\<close>.\<close>

definition loadBot :: "bot \<Rightarrow> state \<Rightarrow> state" where
  "loadBot b st = st\<lparr>bots := jsmap_set (bot_id b) b (bots st)\<rparr>"

definition loadBotRow :: "bot \<Rightarrow> state \<Rightarrow> state" where
  "loadBotRow b st =
     st\<lparr>bots := jsmap_set (bot_id b) b (bots st),
        nextId := max (nextId st) (js_succ (bot_id b))\<rparr>"

definition loadCommand :: "command_meta \<Rightarrow> state \<Rightarrow> state" where
  "loadCommand c st = st\<lparr>commands := jsmap_set (cmd_command c) c (commands st)\<rparr>"

text \<open>\<open>loadFromStorage\<close>: the \<open>json\<close> column of the sqlite rows when the driver and
  the file are there, else the flat document when it exists. \<open>obj.nextId || 1\<close> and
  \<open>obj.bots || []\<close> replace a missing key (and a zero counter) by the default.\<close>

definition loadFromStorage :: "bool \<Rightarrow> state \<Rightarrow> state" where
  "loadFromStorage sqlite3 s =
     (case (if sqlite3 then sqlite_file s else None) of
        Some db \<Rightarrow> fold loadBotRow (map snd (tbl_bots db)) s
      | None \<Rightarrow>
          (case json_file s of
             None \<Rightarrow> s
           | Some obj \<Rightarrow>
               fold loadBot
                    (case doc_bots obj of None \<Rightarrow> [] | Some bs \<Rightarrow> bs)
                    (s\<lparr>nextId := (case doc_nextId obj of
                                      None \<Rightarrow> 1
                                    | Some n \<Rightarrow> if n = 0 then 1 else n)\<rparr>)))"

text \<open>\<open>initPersistence\<close>, with \<open>obj.commands || []\<close>.\<close>

definition initPersistence :: "bool \<Rightarrow> state \<Rightarrow> state" where
  "initPersistence sqlite3 s =
     (case (if sqlite3 then sqlite_file s else None) of
        Some db \<Rightarrow> fold loadCommand (map snd (tbl_commands db)) s
      | None \<Rightarrow>
          (case json_file s of
             None \<Rightarrow> s
           | Some obj \<Rightarrow>
               fold loadCommand (case doc_commands obj of None \<Rightarrow> [] | Some cs \<Rightarrow> cs) s))"

text \<open>A process start: the constructors of \<open>BotManager\<close> and \<open>CommandProxy\<close> begin with
  empty maps and the counter at 1, then load what the files hold. The two \<open>setInterval\<close>
  timers, which call \<open>saveToStorage\<close> and \<open>saveCommands\<close> again every 30 seconds, are
  not part of the model; a save is modelled where an operation calls it.\<close>

definition startup :: "bool \<Rightarrow> json_doc option \<Rightarrow> sqlite_db option \<Rightarrow> state" where
  "startup sqlite3 jf sf =
     initPersistence sqlite3
       (loadFromStorage sqlite3
          \<lparr>bots = [], nextId = 1, commands = [], json_file = jf, sqlite_file = sf\<rparr>)"


section \<open>BotManager\<close>

definition getBotById :: "state \<Rightarrow> nat \<Rightarrow> bot option" where
  "getBotById s i = jsmap_get (bots s) i"

definition getBotByToken :: "state \<Rightarrow> string \<Rightarrow> bot option" where
  "getBotByToken s token = find (\<lambda>b. bot_token b = token) (jsmap_values (bots s))"

text \<open>\<open>createBot\<close>; the fresh token and the clock reading are arguments.
  \<open>webhook || null\<close> turns the empty string into \<open>null\<close>.\<close>

definition orNull :: "string option \<Rightarrow> string option" where
  "orNull v = (case v of None \<Rightarrow> None | Some x \<Rightarrow> if x = [] then None else Some x)"

definition createBot ::
  "bool \<Rightarrow> string \<Rightarrow> string \<Rightarrow> state \<Rightarrow> string \<Rightarrow> string \<Rightarrow> string option \<Rightarrow> state \<times> bot" where
  "createBot sqlite3 token now s name role webhook =
     (let b = \<lparr>bot_id = nextId s, bot_name = name, bot_token = token, bot_role = role,
               bot_webhook = orNull webhook, bot_commands = [], bot_created_at = now\<rparr>;
          s1 = s\<lparr>nextId := js_succ (nextId s), bots := jsmap_set (nextId s) b (bots s)\<rparr>
      in (saveToStorage sqlite3 s1, b))"

definition attachCommandToBot :: "bool \<Rightarrow> state \<Rightarrow> nat \<Rightarrow> string \<Rightarrow> state \<times> bool" where
  "attachCommandToBot sqlite3 s botId commandName =
     (case getBotById s botId of
        None \<Rightarrow> (s, False)
      | Some b \<Rightarrow>
          (let b' = (if commandName \<in> set (bot_commands b) then b
                     else b\<lparr>bot_commands := bot_commands b @ [commandName]\<rparr>)
           in (saveToStorage sqlite3 (s\<lparr>bots := jsmap_set botId b' (bots s)\<rparr>), True)))"

definition removeCommandFromBot :: "bool \<Rightarrow> state \<Rightarrow> nat \<Rightarrow> string \<Rightarrow> state \<times> bool" where
  "removeCommandFromBot sqlite3 s botId commandName =
     (case getBotById s botId of
        None \<Rightarrow> (s, False)
      | Some b \<Rightarrow>
          (let b' = b\<lparr>bot_commands := filter (\<lambda>c. c \<noteq> commandName) (bot_commands b)\<rparr>
           in (saveToStorage sqlite3 (s\<lparr>bots := jsmap_set botId b' (bots s)\<rparr>), True)))"


section \<open>CommandProxy: the registry\<close>

text \<open>The \<open>command\<close> argument of \<open>createCommand\<close> is any JavaScript value; all that the
  check \<open>!command || typeof command !== 'string'\<close> looks at is whether it is a string and
  whether that string is empty. The clock reading \<open>nowISO()\<close> is the argument \<open>now\<close>;
  \<open>registerCommandInVynixC\<close> only writes a log line and is left out, as the log
  output is throughout.\<close>

datatype name_arg = NonText | Text string

definition createCommand ::
  "bool \<Rightarrow> string \<Rightarrow> state \<Rightarrow> string \<Rightarrow> name_arg \<Rightarrow> string \<Rightarrow> string option \<Rightarrow> bool
     \<Rightarrow> state \<times> (error + command_meta)" where
  "createCommand sqlite3 now s token command description callback webhook =
     (case getBotByToken s token of
        None \<Rightarrow> (s, Inl InvalidToken)
      | Some b \<Rightarrow>
          (case command of
             NonText \<Rightarrow> (s, Inl InvalidName)
           | Text raw \<Rightarrow>
               if raw = [] then (s, Inl InvalidName)
               else
                 (let name = toLowerCase (stripLeadingSlashes raw)
                  in if jsmap_has (commands s) name then (s, Inl DuplicateName)
                     else
                       (let meta = \<lparr>cmd_command = name, cmd_description = description,
                                    cmd_ownerId = bot_id b, cmd_callback = orNull callback,
                                    cmd_webhook = webhook, cmd_created_at = now\<rparr>;
                            s1 = s\<lparr>commands := jsmap_set name meta (commands s)\<rparr>;
                            s2 = fst (attachCommandToBot sqlite3 s1 (bot_id b) name)
                        in (saveCommands sqlite3 s2, Inr meta)))))"

definition getCommand :: "state \<Rightarrow> string \<Rightarrow> command_meta option" where
  "getCommand s name = jsmap_get (commands s) (toLowerCase name)"

definition deleteCommand :: "bool \<Rightarrow> state \<Rightarrow> string \<Rightarrow> state \<times> bool" where
  "deleteCommand sqlite3 s name =
     (let name' = toLowerCase name
      in case jsmap_get (commands s) name' of
           None \<Rightarrow> (s, False)
         | Some meta \<Rightarrow>
             (let s1 = s\<lparr>commands := jsmap_delete name' (commands s)\<rparr>;
                  s2 = fst (removeCommandFromBot sqlite3 s1 (cmd_ownerId meta) name')
              in (saveCommands sqlite3 s2, True)))"


section \<open>CommandProxy: dispatch and console execution\<close>

text \<open>
  The host runtime \<open>kainure\<close> is \<open>null\<close> or an object whose optional members
  \<open>callCallback\<close> and \<open>execConsoleCommand\<close> are functions of the environment. A call
  returns or throws (for an awaited call: resolves or rejects) with a value that is either
  \<open>null\<close>/\<open>undefined\<close> or something whose \<open>message\<close> property can be read.
\<close>

record player_event =
  ev_playerId :: int
  ev_playerName :: string
  ev_args :: "string list"

record callback_payload =
  cp_event :: player_event
  cp_meta :: command_meta

record webhook_payload =
  wp_eventName :: string
  wp_command :: string
  wp_event :: player_event
  wp_meta :: command_meta
  wp_timestamp :: string

datatype outcome = Returns | Throws js_thrown

record host =
  callCallback :: "(string \<Rightarrow> callback_payload \<Rightarrow> outcome) option"
  execConsoleCommand :: "(string \<Rightarrow> js_thrown + string) option"

datatype effect =
    CallbackCall string callback_payload
  | WebhookPost string webhook_payload
  | ConsoleExec string
  | ShellExec string

text \<open>Both handlers, \<open>catch (e) { logWarn(..., e.message) }\<close> and
  \<open>.catch(e => logWarn('Webhook fail', e.message))\<close>, read \<open>e.message\<close>. Reading a
  property of \<open>null\<close> or \<open>undefined\<close> throws a \<open>TypeError\<close>, which leaves the
  handler; any other value is logged and the handler completes.\<close>

definition handlerCompletes :: "js_thrown \<Rightarrow> bool" where
  "handlerCompletes e = (case e of ThrownNullish \<Rightarrow> False | ThrownValue msg \<Rightarrow> True)"

text \<open>Step 1 of \<open>handlePlayerCommand\<close>, the local callback: the effects, and whether
  control reaches step 2 (\<open>False\<close>: an exception went to the outer \<open>catch\<close>).\<close>

definition callbackStep ::
  "host option \<Rightarrow> command_meta \<Rightarrow> player_event \<Rightarrow> effect list \<times> bool" where
  "callbackStep kainure meta ev =
     (case orNull (cmd_callback meta) of
        None \<Rightarrow> ([], True)
      | Some cb \<Rightarrow>
          (case kainure of
             None \<Rightarrow> ([], True)
           | Some h \<Rightarrow>
               (case callCallback h of
                  None \<Rightarrow> ([], True)
                | Some call \<Rightarrow>
                    (let payload = \<lparr>cp_event = ev, cp_meta = meta\<rparr>
                     in case call cb payload of
                          Returns \<Rightarrow> ([CallbackCall cb payload], True)
                        | Throws e \<Rightarrow> ([CallbackCall cb payload], handlerCompletes e)))))"

text \<open>Step 2, the webhook; \<open>sendWebhook\<close> stands for \<open>_sendWebhook\<close>, whose result
  depends on the network.\<close>

definition webhookStep ::
  "(string \<Rightarrow> webhook_payload \<Rightarrow> outcome) \<Rightarrow> string \<Rightarrow> state \<Rightarrow> command_meta \<Rightarrow> player_event
     \<Rightarrow> effect list \<times> bool" where
  "webhookStep sendWebhook now s meta ev =
     (if cmd_webhook meta then
        (case getBotById s (cmd_ownerId meta) of
           None \<Rightarrow> ([], True)
         | Some b \<Rightarrow>
             (case orNull (bot_webhook b) of
                None \<Rightarrow> ([], True)
              | Some url \<Rightarrow>
                  (let payload = \<lparr>wp_eventName = ''command_trigger'',
                                   wp_command = cmd_command meta, wp_event = ev,
                                   wp_meta = meta, wp_timestamp = now\<rparr>
                   in case sendWebhook url payload of
                        Returns \<Rightarrow> ([WebhookPost url payload], True)
                      | Throws e \<Rightarrow> ([WebhookPost url payload], handlerCompletes e))))
      else ([], True))"

text \<open>\<open>handlePlayerCommand\<close>: the value the returned promise resolves to, and the calls
  made on the way. An exception that reaches the outer \<open>catch\<close> is a \<open>TypeError\<close>, whose
  message can be read, so the outer handler logs it and returns \<open>false\<close>.\<close>

definition handlePlayerCommand ::
  "host option \<Rightarrow> (string \<Rightarrow> webhook_payload \<Rightarrow> outcome) \<Rightarrow> string \<Rightarrow> state
     \<Rightarrow> player_event \<Rightarrow> string \<Rightarrow> bool \<times> effect list" where
  "handlePlayerCommand kainure sendWebhook now s ev commandName =
     (let commandName' = toLowerCase (stripLeadingSlashes commandName)
      in case getCommand s commandName' of
           None \<Rightarrow> (False, [])
         | Some meta \<Rightarrow>
             (case callbackStep kainure meta ev of
                (fx1, False) \<Rightarrow> (False, fx1)
              | (fx1, True) \<Rightarrow>
                  (case webhookStep sendWebhook now s meta ev of
                     (fx2, ok) \<Rightarrow> (ok, fx1 @ fx2))))"

text \<open>\<open>runCommandAsConsole\<close>; \<open>execSync\<close> stands for \<open>child_process.execSync\<close>, which
  returns the output or throws an \<open>Error\<close> (\<open>Inl\<close> its message).
  \<open>e.message || 'unknown'\<close> replaces an empty message.\<close>

definition runCommandAsConsole ::
  "host option \<Rightarrow> (string \<Rightarrow> string + string) \<Rightarrow> state \<Rightarrow> string \<Rightarrow> string
     \<Rightarrow> effect list \<times> (error + string)" where
  "runCommandAsConsole kainure execSync s cmd token =
     (case getBotByToken s token of
        None \<Rightarrow> ([], Inl InvalidToken)
      | Some b \<Rightarrow>
          if bot_role b \<notin> set [''admin'', ''executor''] \<and> bot_role b \<noteq> ''admin''
          then ([], Inl PermissionDenied)
          else
            (case (case kainure of None \<Rightarrow> None | Some h \<Rightarrow> execConsoleCommand h) of
               Some exec \<Rightarrow>
                 ([ConsoleExec cmd],
                  (case exec cmd of Inl e \<Rightarrow> Inl (HostError e) | Inr out \<Rightarrow> Inr out))
             | None \<Rightarrow>
                 ([ShellExec cmd],
                  (case execSync cmd of
                     Inl msg \<Rightarrow>
                       Inl (ExecutionError (''Exec error: '' @ (if msg = [] then ''unknown'' else msg)))
                   | Inr out \<Rightarrow> Inr out))))"


section \<open>Example states\<close>

text \<open>The identities of the specification's concrete scenario: a privileged bot with a
  webhook address, and a bot with the default role and no webhook.\<close>

definition shop :: bot where
  "shop = \<lparr>bot_id = 1, bot_name = ''Shop'', bot_token = ''tok-shop'', bot_role = ''admin'',
           bot_webhook = Some ''http://x/hook'', bot_commands = [], bot_created_at = ''t0''\<rparr>"

definition guest :: bot where
  "guest = \<lparr>bot_id = 2, bot_name = ''Guest'', bot_token = ''tok-guest'',
            bot_role = ''command_creator'', bot_webhook = None, bot_commands = [],
            bot_created_at = ''t1''\<rparr>"

definition two_bots :: state where
  "two_bots = \<lparr>bots = [(1, shop), (2, guest)], nextId = 3, commands = [],
               json_file = None, sqlite_file = None\<rparr>"

definition ann :: player_event where
  "ann = \<lparr>ev_playerId = 1, ev_playerName = ''Ann'', ev_args = []\<rparr>"


text \<open>The state after the scenario's \<open>createCommand\<close> with the name \<open>/VIP\<close>, the webhook
  enabled, on the flat-document backend.\<close>

definition vip_meta :: command_meta where
  "vip_meta = \<lparr>cmd_command = ''vip'', cmd_description = '''', cmd_ownerId = 1,
               cmd_callback = None, cmd_webhook = True, cmd_created_at = ''t2''\<rparr>"

definition vip_state :: state where
  "vip_state = \<lparr>bots = [(1, shop\<lparr>bot_commands := [''vip'']\<rparr>), (2, guest)], nextId = 3,
                commands = [(''vip'', vip_meta)],
                json_file = Some \<lparr>doc_nextId = None, doc_bots = None,
                                   doc_commands = Some [vip_meta]\<rparr>,
                sqlite_file = None\<rparr>"

text \<open>The same command with a local callback configured, a host runtime whose
  \<open>callCallback\<close> fails with a given value, and the webhook payload of the dispatch.\<close>

definition vip_cb_meta :: command_meta where
  "vip_cb_meta = vip_meta\<lparr>cmd_callback := Some ''OnVipActivate''\<rparr>"

definition vip_cb_state :: state where
  "vip_cb_state = vip_state\<lparr>commands := [(''vip'', vip_cb_meta)]\<rparr>"

definition failing_host :: "js_thrown \<Rightarrow> host" where
  "failing_host e = \<lparr>callCallback = Some (\<lambda>name payload. Throws e), execConsoleCommand = None\<rparr>"

text \<open>A host runtime whose \<open>callCallback\<close> returns.\<close>

definition returning_host :: host where
  "returning_host = \<lparr>callCallback = Some (\<lambda>name payload. Returns), execConsoleCommand = None\<rparr>"

definition vip_webhook_payload :: webhook_payload where
  "vip_webhook_payload = \<lparr>wp_eventName = ''command_trigger'', wp_command = ''vip'', wp_event = ann,
      wp_meta = vip_cb_meta, wp_timestamp = ''t3''\<rparr>"



section \<open>The ownership invariant\<close>

text \<open>
  The invariant of the specification's data model: a name is a key of the registry exactly
  when it is in the \<open>commands\<close> list of exactly one identity. Names that occur in neither
  structure satisfy it trivially, so it is enough to look at the names in use.
\<close>

definition owners_of :: "state \<Rightarrow> string \<Rightarrow> bot list" where
  "owners_of s n = filter (\<lambda>b. n \<in> set (bot_commands b)) (jsmap_values (bots s))"

definition names_in_use :: "state \<Rightarrow> string list" where
  "names_in_use s = map fst (commands s) @ concat (map bot_commands (jsmap_values (bots s)))"

definition registry_in_sync :: "state \<Rightarrow> bool" where
  "registry_in_sync s =
     (\<forall>n \<in> set (names_in_use s). jsmap_has (commands s) n \<longleftrightarrow> length (owners_of s n) = 1)"

text \<open>
  What the two maps satisfy when they are built by \<open>createBot\<close>, \<open>createCommand\<close> and
  \<open>deleteCommand\<close>: keys are unique (they are \<open>Map\<close> objects), a bot is stored under its
  own id, every name a bot owns is registered with that bot as \<open>ownerId\<close>, and the owner
  of every registered name exists and owns it.
\<close>

definition consistent :: "state \<Rightarrow> bool" where
  "consistent s =
     (distinct (map fst (bots s)) \<and> distinct (map fst (commands s))
      \<and> (\<forall>(i, b) \<in> set (bots s).
            bot_id b = i
            \<and> (\<forall>n \<in> set (bot_commands b).
                  case jsmap_get (commands s) n of
                    None \<Rightarrow> False
                  | Some m \<Rightarrow> cmd_ownerId m = i))
      \<and> (\<forall>(n, m) \<in> set (commands s).
            case jsmap_get (bots s) (cmd_ownerId m) of
              None \<Rightarrow> False
            | Some b \<Rightarrow> n \<in> set (bot_commands b)))"


section \<open>Basic facts\<close>

lemma toLowerCaseChar_idem: "toLowerCaseChar (toLowerCaseChar c) = toLowerCaseChar c"
  by (auto simp: toLowerCaseChar_def Let_def)

lemma toLowerCase_idem: "toLowerCase (toLowerCase s) = toLowerCase s"
  by (simp add: toLowerCase_def toLowerCaseChar_idem)

lemma strip_all_slashes: "set raw \<subseteq> {CHR ''/''} \<Longrightarrow> stripLeadingSlashes raw = []"
  by (auto simp: stripLeadingSlashes_def)

lemma jsmap_get_set:
  "jsmap_get (jsmap_set k v m) k' = (if k' = k then Some v else jsmap_get m k')"
  by (induction m) (auto simp: jsmap_get_def)

lemma jsmap_has_get: "jsmap_has m k \<longleftrightarrow> jsmap_get m k \<noteq> None"
  by (simp add: jsmap_has_def jsmap_get_def map_of_eq_None_iff)

lemma jsmap_get_delete:
  "jsmap_get (jsmap_delete k m) k' = (if k' = k then None else jsmap_get m k')"
  by (induction m) (auto simp: jsmap_get_def jsmap_delete_def)

text \<open>Saving touches the files only.\<close>

lemma saveToStorage_mem [simp]:
  "bots (saveToStorage q s) = bots s"
  "commands (saveToStorage q s) = commands s"
  "nextId (saveToStorage q s) = nextId s"
  by (simp_all add: saveToStorage_def Let_def)

lemma saveCommands_mem [simp]:
  "bots (saveCommands q s) = bots s"
  "commands (saveCommands q s) = commands s"
  "nextId (saveCommands q s) = nextId s"
  by (simp_all add: saveCommands_def Let_def)

lemma attach_commands [simp]: "commands (fst (attachCommandToBot q s i n)) = commands s"
  by (simp add: attachCommandToBot_def Let_def split: option.splits)

lemma remove_commands [simp]: "commands (fst (removeCommandFromBot q s i n)) = commands s"
  by (simp add: removeCommandFromBot_def Let_def split: option.splits)

lemma two_bots_tokens:
  "getBotByToken two_bots ''tok-shop'' = Some shop"
  "getBotByToken two_bots ''tok-guest'' = Some guest"
  "getBotByToken two_bots ''nobody'' = None"
  by (simp_all add: getBotByToken_def two_bots_def jsmap_values_def shop_def guest_def)

text \<open>The scenario's creation, evaluated.\<close>

lemma two_bots_sel: "commands two_bots = []" "bots two_bots = [(1, shop), (2, guest)]"
  by (simp_all add: two_bots_def)

lemma lower_VIP: "toLowerCase ''VIP'' = ''vip''" "toLowerCase ''/VIP'' = ''/vip''"
  "toLowerCase ''vip'' = ''vip''"
  by code_simp+

lemma lower_latin1: "toLowerCase [char_of (201::nat)] = [char_of (233::nat)]"
  "toLowerCase [char_of (215::nat)] = [char_of (215::nat)]"
  by code_simp+

lemma lower_Shop: "toLowerCase ''Shop'' = ''shop''"
  by code_simp

lemma strip_Shop: "stripLeadingSlashes ''/Shop'' = ''Shop''"
  by (simp add: stripLeadingSlashes_def)

lemma strip_VIP: "stripLeadingSlashes ''/VIP'' = ''VIP''"
  by (simp add: stripLeadingSlashes_def)

lemma create_vip:
  "createCommand False ''t2'' two_bots ''tok-shop'' (Text ''/VIP'') '''' None True
     = (vip_state, Inr vip_meta)"
proof -
  have "createCommand False ''t2'' two_bots ''tok-shop'' (Text ''/VIP'') '''' None True
      = (saveCommands False
           (fst (attachCommandToBot False (two_bots\<lparr>commands := [(''vip'', vip_meta)]\<rparr>) 1 ''vip'')),
         Inr vip_meta)"
    by (simp add: createCommand_def two_bots_tokens strip_VIP lower_VIP Let_def orNull_def
        jsmap_has_def two_bots_sel vip_meta_def shop_def)
  also have "\<dots> = (vip_state, Inr vip_meta)"
    by (simp add: Let_def attachCommandToBot_def getBotById_def jsmap_get_def
        saveToStorage_def saveCommands_def jsmap_values_def vip_state_def
        two_bots_def shop_def)
  finally show ?thesis .
qed

lemma createCommand_fails_unchanged:
  "snd (createCommand sqlite3 now s token command description callback webhook) = Inl e \<Longrightarrow>
   fst (createCommand sqlite3 now s token command description callback webhook) = s"
  by (auto simp: createCommand_def Let_def split: option.splits name_arg.splits if_splits)

lemma create_registers:
  assumes "createCommand sqlite3 now s token (Text raw) description callback webhook = (s', Inr meta)"
  shows "jsmap_has (commands s') (normalizeName raw)"
  using assms
  by (auto simp: createCommand_def Let_def normalizeName_def jsmap_has_get jsmap_get_set
      split: option.splits if_splits)

lemma get_after_create:
  assumes "createCommand sqlite3 now s token (Text raw) description callback webhook = (s', Inr meta)"
    and "toLowerCase name = normalizeName raw"
  shows "getCommand s' name = Some meta"
  using assms
  by (auto simp: createCommand_def Let_def getCommand_def normalizeName_def jsmap_get_set
      split: option.splits if_splits)


section \<open>Facts about the ownership invariant\<close>

text \<open>The bounded form of the invariant is the statement about every name.\<close>

lemma registry_in_sync_all:
  "registry_in_sync s \<longleftrightarrow> (\<forall>n. jsmap_has (commands s) n \<longleftrightarrow> length (owners_of s n) = 1)"
proof -
  have out: "\<not> jsmap_has (commands s) n \<and> length (owners_of s n) \<noteq> 1"
    if "n \<notin> set (names_in_use s)" for n
  proof -
    from that have a: "n \<notin> fst ` set (commands s)"
      and b: "\<forall>x \<in> set (jsmap_values (bots s)). n \<notin> set (bot_commands x)"
      by (auto simp: names_in_use_def)
    from b have "owners_of s n = []" by (auto simp: owners_of_def filter_empty_conv)
    with a show ?thesis by (simp add: jsmap_has_def)
  qed
  show ?thesis unfolding registry_in_sync_def using out by blast
qed

lemma ball_jsmap:
  "distinct (map fst m) \<Longrightarrow>
     (\<forall>(k, v) \<in> set m. P k v) \<longleftrightarrow> (\<forall>k v. jsmap_get m k = Some v \<longrightarrow> P k v)"
  by (auto simp: jsmap_get_def)

lemma case_option_ex:
  "(case x of None \<Rightarrow> False | Some m \<Rightarrow> P m) \<longleftrightarrow> (\<exists>m. x = Some m \<and> P m)"
  by (cases x) simp_all

lemma consistent_get:
  "consistent s \<longleftrightarrow>
     distinct (map fst (bots s)) \<and> distinct (map fst (commands s))
     \<and> (\<forall>i b. jsmap_get (bots s) i = Some b \<longrightarrow>
           bot_id b = i
           \<and> (\<forall>n \<in> set (bot_commands b). \<exists>m. jsmap_get (commands s) n = Some m \<and> cmd_ownerId m = i))
     \<and> (\<forall>n m. jsmap_get (commands s) n = Some m \<longrightarrow>
           (\<exists>b. jsmap_get (bots s) (cmd_ownerId m) = Some b \<and> n \<in> set (bot_commands b)))"
proof (cases "distinct (map fst (bots s)) \<and> distinct (map fst (commands s))")
  case True
  then have db: "distinct (map fst (bots s))" and dc: "distinct (map fst (commands s))"
    by simp_all
  show ?thesis
    unfolding consistent_def ball_jsmap [OF db] ball_jsmap [OF dc] case_option_ex
    by simp
next
  case False
  then show ?thesis by (auto simp: consistent_def)
qed

lemma keys_jsmap_set:
  "map fst (jsmap_set k v m) = (if k \<in> set (map fst m) then map fst m else map fst m @ [k])"
  by (induction m) auto

lemma distinct_jsmap_set: "distinct (map fst m) \<Longrightarrow> distinct (map fst (jsmap_set k v m))"
  by (simp add: keys_jsmap_set)

lemma distinct_jsmap_delete: "distinct (map fst m) \<Longrightarrow> distinct (map fst (jsmap_delete k m))"
  by (simp add: jsmap_delete_def distinct_map_filter)

lemma token_bot_get:
  assumes "consistent s" and "getBotByToken s token = Some b"
  shows "jsmap_get (bots s) (bot_id b) = Some b"
proof -
  from assms(2) have "b \<in> set (jsmap_values (bots s))"
    by (auto simp: getBotByToken_def find_Some_iff)
  then obtain i where i: "(i, b) \<in> set (bots s)"
    by (auto simp: jsmap_values_def)
  from assms(1) have d: "distinct (map fst (bots s))" by (simp add: consistent_def)
  from i d have g: "jsmap_get (bots s) i = Some b" by (simp add: jsmap_get_def)
  with assms(1) have "bot_id b = i" by (auto simp: consistent_get)
  with g show ?thesis by simp
qed

lemma create_success_state:
  assumes "createCommand sqlite3 now s token command description callback webhook = (s', Inr meta)"
  shows "\<exists>b raw. getBotByToken s token = Some b \<and> command = Text raw
      \<and> \<not> jsmap_has (commands s) (normalizeName raw)
      \<and> cmd_ownerId meta = bot_id b
      \<and> commands s' = jsmap_set (normalizeName raw) meta (commands s)
      \<and> bots s' = bots (fst (attachCommandToBot sqlite3
                     (s\<lparr>commands := jsmap_set (normalizeName raw) meta (commands s)\<rparr>)
                     (bot_id b) (normalizeName raw)))"
  using assms
  by (auto simp: createCommand_def Let_def normalizeName_def split: option.splits name_arg.splits if_splits)

lemma attach_bots:
  "jsmap_get (bots s) i = Some b \<Longrightarrow>
   bots (fst (attachCommandToBot sqlite3 s i n))
     = jsmap_set i (if n \<in> set (bot_commands b) then b
                    else b\<lparr>bot_commands := bot_commands b @ [n]\<rparr>) (bots s)"
  by (simp add: attachCommandToBot_def getBotById_def Let_def)

lemma remove_bots:
  "jsmap_get (bots s) i = Some b \<Longrightarrow>
   bots (fst (removeCommandFromBot sqlite3 s i n))
     = jsmap_set i (b\<lparr>bot_commands := filter (\<lambda>c. c \<noteq> n) (bot_commands b)\<rparr>) (bots s)"
  by (simp add: removeCommandFromBot_def getBotById_def Let_def)

lemma createCommand_consistent:
  assumes c: "consistent s"
  shows "consistent (fst (createCommand sqlite3 now s token command description callback webhook))"
proof (cases "snd (createCommand sqlite3 now s token command description callback webhook)")
  case (Inl e)
  then show ?thesis using c by (simp add: createCommand_fails_unchanged)
next
  case (Inr meta)
  define s' where "s' = fst (createCommand sqlite3 now s token command description callback webhook)"
  have eq: "createCommand sqlite3 now s token command description callback webhook = (s', Inr meta)"
    using Inr by (simp add: s'_def prod_eq_iff)
  from create_success_state [OF eq] obtain b raw where
    tok: "getBotByToken s token = Some b" and
    fresh: "\<not> jsmap_has (commands s) (normalizeName raw)" and
    own: "cmd_ownerId meta = bot_id b" and
    cs: "commands s' = jsmap_set (normalizeName raw) meta (commands s)" and
    bs0: "bots s' = bots (fst (attachCommandToBot sqlite3
                     (s\<lparr>commands := jsmap_set (normalizeName raw) meta (commands s)\<rparr>)
                     (bot_id b) (normalizeName raw)))"
    by blast
  define k where "k = normalizeName raw"
  define i where "i = bot_id b"
  define b' where "b' = (if k \<in> set (bot_commands b) then b
                         else b\<lparr>bot_commands := bot_commands b @ [k]\<rparr>)"
  have gb: "jsmap_get (bots s) i = Some b"
    using token_bot_get [OF c tok] by (simp add: i_def)
  have bs: "bots s' = jsmap_set i b' (bots s)"
    using bs0 gb by (simp add: attach_bots i_def k_def b'_def)
  have cs': "commands s' = jsmap_set k meta (commands s)" using cs by (simp add: k_def)
  have fresh': "jsmap_get (commands s) k = None" using fresh by (simp add: jsmap_has_get k_def)
  have own': "cmd_ownerId meta = i" using own by (simp add: i_def)
  have idb': "bot_id b' = bot_id b" by (simp add: b'_def)
  have kb': "k \<in> set (bot_commands b')" by (simp add: b'_def)
  have setb': "set (bot_commands b') \<subseteq> insert k (set (bot_commands b))"
    by (auto simp: b'_def)
  have subb': "set (bot_commands b) \<subseteq> set (bot_commands b')"
    by (auto simp: b'_def)
  from c have d1: "distinct (map fst (bots s))" and d2: "distinct (map fst (commands s))"
    and A: "\<And>j x. jsmap_get (bots s) j = Some x \<Longrightarrow> bot_id x = j"
    and B: "\<And>j x n. jsmap_get (bots s) j = Some x \<Longrightarrow> n \<in> set (bot_commands x) \<Longrightarrow>
              \<exists>m. jsmap_get (commands s) n = Some m \<and> cmd_ownerId m = j"
    and C: "\<And>n m. jsmap_get (commands s) n = Some m \<Longrightarrow>
              \<exists>x. jsmap_get (bots s) (cmd_ownerId m) = Some x \<and> n \<in> set (bot_commands x)"
    by (auto simp: consistent_get)
  have A': "bot_id x = j" if "jsmap_get (bots s') j = Some x" for j x
    using that A [of j x] A [OF gb] idb' by (auto simp: bs jsmap_get_set split: if_splits)
  have B': "\<exists>m. jsmap_get (commands s') n = Some m \<and> cmd_ownerId m = j"
    if g: "jsmap_get (bots s') j = Some x" and n: "n \<in> set (bot_commands x)" for j x n
  proof (cases "n = k")
    case True
    have "j = i"
    proof (rule ccontr)
      assume "j \<noteq> i"
      with g have "jsmap_get (bots s) j = Some x" by (simp add: bs jsmap_get_set)
      from B [OF this n] fresh' True show False by simp
    qed
    with True own' show ?thesis by (simp add: cs' jsmap_get_set)
  next
    case False
    have "\<exists>y. jsmap_get (bots s) j = Some y \<and> n \<in> set (bot_commands y)"
    proof (cases "j = i")
      case True
      with g have "x = b'" by (simp add: bs jsmap_get_set)
      with n setb' False have "n \<in> set (bot_commands b)" by auto
      with gb True show ?thesis by simp
    next
      case False
      with g n show ?thesis by (simp add: bs jsmap_get_set)
    qed
    then obtain y where "jsmap_get (bots s) j = Some y" "n \<in> set (bot_commands y)" by blast
    from B [OF this] False show ?thesis by (simp add: cs' jsmap_get_set)
  qed
  have C': "\<exists>x. jsmap_get (bots s') (cmd_ownerId m) = Some x \<and> n \<in> set (bot_commands x)"
    if g: "jsmap_get (commands s') n = Some m" for n m
  proof (cases "n = k")
    case True
    with g have "m = meta" by (simp add: cs' jsmap_get_set)
    with True own' kb' show ?thesis by (simp add: bs jsmap_get_set)
  next
    case False
    with g have "jsmap_get (commands s) n = Some m" by (simp add: cs' jsmap_get_set)
    from C [OF this] obtain x where x: "jsmap_get (bots s) (cmd_ownerId m) = Some x"
      "n \<in> set (bot_commands x)" by blast
    show ?thesis
    proof (cases "cmd_ownerId m = i")
      case True
      with x gb have "x = b" by simp
      with x subb' have "n \<in> set (bot_commands b')" by auto
      with True show ?thesis by (simp add: bs jsmap_get_set)
    next
      case False
      with x show ?thesis by (simp add: bs jsmap_get_set)
    qed
  qed
  have "consistent s'"
    unfolding consistent_get
    using d1 d2 A' B' C' by (auto simp: bs cs' distinct_jsmap_set)
  then show ?thesis by (simp add: s'_def)
qed

lemma deleteCommand_consistent:
  assumes c: "consistent s"
  shows "consistent (fst (deleteCommand sqlite3 s name))"
proof (cases "jsmap_get (commands s) (toLowerCase name)")
  case None
  then show ?thesis using c by (simp add: deleteCommand_def)
next
  case (Some meta)
  define k where "k = toLowerCase name"
  define i where "i = cmd_ownerId meta"
  define s' where "s' = fst (deleteCommand sqlite3 s name)"
  from c have d1: "distinct (map fst (bots s))" and d2: "distinct (map fst (commands s))"
    and A: "\<And>j x. jsmap_get (bots s) j = Some x \<Longrightarrow> bot_id x = j"
    and B: "\<And>j x n. jsmap_get (bots s) j = Some x \<Longrightarrow> n \<in> set (bot_commands x) \<Longrightarrow>
              \<exists>m. jsmap_get (commands s) n = Some m \<and> cmd_ownerId m = j"
    and C: "\<And>n m. jsmap_get (commands s) n = Some m \<Longrightarrow>
              \<exists>x. jsmap_get (bots s) (cmd_ownerId m) = Some x \<and> n \<in> set (bot_commands x)"
    by (auto simp: consistent_get)
  have gk: "jsmap_get (commands s) k = Some meta" using Some by (simp add: k_def)
  from C [OF gk] obtain b where gb: "jsmap_get (bots s) i = Some b"
    by (auto simp: i_def)
  define b' where "b' = b\<lparr>bot_commands := filter (\<lambda>c. c \<noteq> k) (bot_commands b)\<rparr>"
  have cs: "commands s' = jsmap_delete k (commands s)"
    using Some by (simp add: s'_def deleteCommand_def Let_def k_def)
  have bs: "bots s' = jsmap_set i b' (bots s)"
    using Some gb
    by (simp add: s'_def deleteCommand_def Let_def k_def [symmetric] i_def [symmetric]
        remove_bots b'_def)
  have A': "bot_id x = j" if "jsmap_get (bots s') j = Some x" for j x
    using that A [of j x] A [OF gb] by (auto simp: bs jsmap_get_set b'_def split: if_splits)
  have B': "\<exists>m. jsmap_get (commands s') n = Some m \<and> cmd_ownerId m = j"
    if g: "jsmap_get (bots s') j = Some x" and n: "n \<in> set (bot_commands x)" for j x n
  proof -
    have old: "\<exists>y. jsmap_get (bots s) j = Some y \<and> n \<in> set (bot_commands y)"
      using g n gb by (auto simp: bs jsmap_get_set b'_def split: if_splits)
    then obtain y where y: "jsmap_get (bots s) j = Some y" "n \<in> set (bot_commands y)" by blast
    from B [OF y] obtain m where m: "jsmap_get (commands s) n = Some m" "cmd_ownerId m = j"
      by blast
    have "n \<noteq> k"
    proof
      assume nk: "n = k"
      with m gk have "j = i" by (simp add: i_def)
      with g have "x = b'" by (simp add: bs jsmap_get_set)
      with n nk show False by (simp add: b'_def)
    qed
    with m show ?thesis by (simp add: cs jsmap_get_delete)
  qed
  have C': "\<exists>x. jsmap_get (bots s') (cmd_ownerId m) = Some x \<and> n \<in> set (bot_commands x)"
    if g: "jsmap_get (commands s') n = Some m" for n m
  proof -
    from g have nk: "n \<noteq> k" and old: "jsmap_get (commands s) n = Some m"
      by (auto simp: cs jsmap_get_delete split: if_splits)
    from C [OF old] obtain x where x: "jsmap_get (bots s) (cmd_ownerId m) = Some x"
      "n \<in> set (bot_commands x)" by blast
    show ?thesis
    proof (cases "cmd_ownerId m = i")
      case True
      with x gb have "x = b" by simp
      with x nk have "n \<in> set (bot_commands b')" by (simp add: b'_def)
      with True show ?thesis by (simp add: bs jsmap_get_set)
    next
      case False
      with x show ?thesis by (simp add: bs jsmap_get_set)
    qed
  qed
  have "consistent s'"
    unfolding consistent_get
    using d1 d2 A' B' C' by (auto simp: bs cs distinct_jsmap_set distinct_jsmap_delete)
  then show ?thesis by (simp add: s'_def)
qed

lemma single_owner_count:
  "distinct (map fst m) \<Longrightarrow> (k, v) \<in> set m \<Longrightarrow> P v \<Longrightarrow>
   (\<And>j x. (j, x) \<in> set m \<Longrightarrow> P x \<Longrightarrow> j = k) \<Longrightarrow>
   length (filter P (map snd m)) = 1"
proof (induction m)
  case Nil
  then show ?case by simp
next
  case (Cons p m)
  obtain j x where p: "p = (j, x)" by (cases p)
  show ?case
  proof (cases "j = k")
    case True
    from Cons.prems(1) p True have notin: "k \<notin> fst ` set m" by simp
    from Cons.prems(2) p True notin have "x = v" by (auto simp: image_iff)
    have "filter P (map snd m) = []"
    proof (rule ccontr)
      assume "filter P (map snd m) \<noteq> []"
      then obtain y where y: "y \<in> set (map snd m)" "P y"
        by (auto simp: filter_empty_conv)
      then obtain j' where j': "(j', y) \<in> set m" by auto
      then have "(j', y) \<in> set (p # m)" by simp
      from Cons.prems(4) [OF this y(2)] have "j' = k" .
      with j' notin show False by (auto simp: image_iff)
    qed
    with \<open>x = v\<close> Cons.prems(3) p show ?thesis by simp
  next
    case False
    have "(j, x) \<in> set (p # m)" using p by simp
    with Cons.prems(4) [of j x] False have nP: "\<not> P x" by blast
    have "length (filter P (map snd m)) = 1"
    proof (rule Cons.IH)
      show "distinct (map fst m)" using Cons.prems(1) by simp
      show "(k, v) \<in> set m" using False Cons.prems(2) p by auto
      show "P v" by (rule Cons.prems(3))
      show "j' = k" if "(j', x') \<in> set m" "P x'" for j' x'
      proof -
        from that(1) have "(j', x') \<in> set (p # m)" by simp
        from Cons.prems(4) [OF this that(2)] show ?thesis .
      qed
    qed
    with nP p show ?thesis by simp
  qed
qed

lemma consistent_in_sync:
  assumes c: "consistent s"
  shows "registry_in_sync s"
proof -
  from c have d1: "distinct (map fst (bots s))"
    and B: "\<And>j x n. jsmap_get (bots s) j = Some x \<Longrightarrow> n \<in> set (bot_commands x) \<Longrightarrow>
              \<exists>m. jsmap_get (commands s) n = Some m \<and> cmd_ownerId m = j"
    and C: "\<And>n m. jsmap_get (commands s) n = Some m \<Longrightarrow>
              \<exists>x. jsmap_get (bots s) (cmd_ownerId m) = Some x \<and> n \<in> set (bot_commands x)"
    by (auto simp: consistent_get)
  have mem: "jsmap_get (bots s) j = Some x" if "(j, x) \<in> set (bots s)" for j x
    using d1 that by (simp add: jsmap_get_def)
  have mem': "(j, x) \<in> set (bots s)" if "jsmap_get (bots s) j = Some x" for j x
    using that by (simp add: jsmap_get_def map_of_SomeD)
  have "jsmap_has (commands s) n \<longleftrightarrow> length (owners_of s n) = 1" for n
  proof (cases "jsmap_get (commands s) n")
    case None
    have "owners_of s n = []"
    proof (rule ccontr)
      assume "owners_of s n \<noteq> []"
      then obtain x where "x \<in> set (owners_of s n)" by (cases "owners_of s n") auto
      then have x: "x \<in> snd ` set (bots s)" "n \<in> set (bot_commands x)"
        by (simp_all add: owners_of_def jsmap_values_def)
      then obtain j where "(j, x) \<in> set (bots s)" by auto
      from B [OF mem [OF this] x(2)] None show False by simp
    qed
    with None show ?thesis by (simp add: jsmap_has_get)
  next
    case (Some m)
    from C [OF Some] obtain x where x: "jsmap_get (bots s) (cmd_ownerId m) = Some x"
      "n \<in> set (bot_commands x)" by blast
    have uniq: "j = cmd_ownerId m" if "(j, y) \<in> set (bots s)" "n \<in> set (bot_commands y)" for j y
    proof -
      from B [OF mem [OF that(1)] that(2)] Some show ?thesis by simp
    qed
    have "length (filter (\<lambda>b. n \<in> set (bot_commands b)) (map snd (bots s))) = 1"
    proof (rule single_owner_count [where k = "cmd_ownerId m" and v = x])
      show "distinct (map fst (bots s))" by (rule d1)
      show "(cmd_ownerId m, x) \<in> set (bots s)" by (rule mem' [OF x(1)])
      show "n \<in> set (bot_commands x)" by (rule x(2))
      show "j = cmd_ownerId m" if "(j, y) \<in> set (bots s)" "n \<in> set (bot_commands y)" for j y
        by (rule uniq [OF that])
    qed
    with Some show ?thesis by (simp add: jsmap_has_get owners_of_def jsmap_values_def)
  qed
  then show ?thesis unfolding registry_in_sync_all by blast
qed

lemma consistent_two_bots: "consistent two_bots"
  by (simp add: consistent_def two_bots_def shop_def guest_def jsmap_get_def)

lemma consistent_vip_state: "consistent vip_state"
  by (simp add: consistent_def vip_state_def vip_meta_def shop_def guest_def jsmap_get_def)

text \<open>In a consistent state a name that is not registered is in no identity's list; a
  creation that passes the checks puts the name into the registry and into its owner's
  list; a deletion that finds the definition takes it out of the registry and out of
  every list.\<close>

lemma consistent_unregistered_no_owner:
  assumes c: "consistent s" and n: "\<not> jsmap_has (commands s) n"
  shows "owners_of s n = []"
proof (rule ccontr)
  assume "owners_of s n \<noteq> []"
  then obtain x where "x \<in> set (owners_of s n)" by (cases "owners_of s n") auto
  then have x: "x \<in> snd ` set (bots s)" "n \<in> set (bot_commands x)"
    by (simp_all add: owners_of_def jsmap_values_def)
  then obtain j where j: "(j, x) \<in> set (bots s)" by auto
  from c have "distinct (map fst (bots s))" by (simp add: consistent_def)
  with j have "jsmap_get (bots s) j = Some x" by (simp add: jsmap_get_def)
  moreover from c have "\<And>j x n. jsmap_get (bots s) j = Some x \<Longrightarrow> n \<in> set (bot_commands x) \<Longrightarrow>
      \<exists>m. jsmap_get (commands s) n = Some m \<and> cmd_ownerId m = j"
    by (auto simp: consistent_get)
  ultimately have "\<exists>m. jsmap_get (commands s) n = Some m" using x(2) by blast
  with n show False by (simp add: jsmap_has_get)
qed

lemma create_adds_to_both:
  assumes c: "consistent s" and tok: "getBotByToken s token = Some b" and ne: "raw \<noteq> []"
    and fresh: "\<not> jsmap_has (commands s) (normalizeName raw)"
  shows "\<exists>meta. snd (createCommand sqlite3 now s token (Text raw) description callback webhook) = Inr meta
      \<and> cmd_command meta = normalizeName raw \<and> cmd_ownerId meta = bot_id b
      \<and> jsmap_get (commands (fst (createCommand sqlite3 now s token (Text raw) description callback webhook)))
           (normalizeName raw) = Some meta
      \<and> (\<exists>b'. getBotById (fst (createCommand sqlite3 now s token (Text raw) description callback webhook))
                  (bot_id b) = Some b'
             \<and> normalizeName raw \<in> set (bot_commands b'))"
proof -
  have gb: "jsmap_get (bots s) (bot_id b) = Some b" by (rule token_bot_get [OF c tok])
  show ?thesis
    using tok ne fresh gb
    by (simp add: createCommand_def Let_def normalizeName_def jsmap_get_set getBotById_def attach_bots)
qed

lemma delete_removes_from_both:
  assumes c: "consistent s" and reg: "jsmap_get (commands s) (toLowerCase name) = Some meta"
  shows "snd (deleteCommand sqlite3 s name) = True
      \<and> \<not> jsmap_has (commands (fst (deleteCommand sqlite3 s name))) (toLowerCase name)
      \<and> owners_of (fst (deleteCommand sqlite3 s name)) (toLowerCase name) = []"
proof -
  have r: "snd (deleteCommand sqlite3 s name) = True"
    and h: "\<not> jsmap_has (commands (fst (deleteCommand sqlite3 s name))) (toLowerCase name)"
    using reg by (simp_all add: deleteCommand_def Let_def jsmap_has_get jsmap_get_delete)
  from consistent_unregistered_no_owner [OF deleteCommand_consistent [OF c] h] r h
  show ?thesis by simp
qed

text \<open>\<open>createBot\<close> keeps the state consistent as long as the counter has not been handed
  out before.\<close>

lemma createBot_consistent:
  assumes c: "consistent s" and fresh: "\<not> jsmap_has (bots s) (nextId s)"
  shows "consistent (fst (createBot sqlite3 token now s name role webhook))"
proof -
  define b where "b = \<lparr>bot_id = nextId s, bot_name = name, bot_token = token, bot_role = role,
      bot_webhook = orNull webhook, bot_commands = [], bot_created_at = now\<rparr>"
  define s' where "s' = fst (createBot sqlite3 token now s name role webhook)"
  have bs: "bots s' = jsmap_set (nextId s) b (bots s)" and cs: "commands s' = commands s"
    by (simp_all add: s'_def createBot_def Let_def b_def)
  have none: "jsmap_get (bots s) (nextId s) = None" using fresh by (simp add: jsmap_has_get)
  from c have d1: "distinct (map fst (bots s))" and d2: "distinct (map fst (commands s))"
    and A: "\<And>j x. jsmap_get (bots s) j = Some x \<Longrightarrow> bot_id x = j"
    and B: "\<And>j x n. jsmap_get (bots s) j = Some x \<Longrightarrow> n \<in> set (bot_commands x) \<Longrightarrow>
              \<exists>m. jsmap_get (commands s) n = Some m \<and> cmd_ownerId m = j"
    and C: "\<And>n m. jsmap_get (commands s) n = Some m \<Longrightarrow>
              \<exists>x. jsmap_get (bots s) (cmd_ownerId m) = Some x \<and> n \<in> set (bot_commands x)"
    by (auto simp: consistent_get)
  have A': "bot_id x = j" if "jsmap_get (bots s') j = Some x" for j x
    using that A [of j x] by (auto simp: bs jsmap_get_set b_def split: if_splits)
  have B': "\<exists>m. jsmap_get (commands s') n = Some m \<and> cmd_ownerId m = j"
    if "jsmap_get (bots s') j = Some x" "n \<in> set (bot_commands x)" for j x n
    using that B [of j x n] by (auto simp: bs cs jsmap_get_set b_def split: if_splits)
  have C': "\<exists>x. jsmap_get (bots s') (cmd_ownerId m) = Some x \<and> n \<in> set (bot_commands x)"
    if "jsmap_get (commands s') n = Some m" for n m
  proof -
    from that C [of n m] obtain x where x: "jsmap_get (bots s) (cmd_ownerId m) = Some x"
      "n \<in> set (bot_commands x)" by (auto simp: cs)
    with none have "cmd_ownerId m \<noteq> nextId s" by auto
    with x show ?thesis by (simp add: bs jsmap_get_set)
  qed
  have "consistent s'"
    unfolding consistent_get
    using d1 d2 A' B' C' by (auto simp: bs cs distinct_jsmap_set)
  then show ?thesis by (simp add: s'_def)
qed

lemma startup_empty_consistent: "consistent (startup sqlite3 None None)"
  by (simp add: startup_def loadFromStorage_def initPersistence_def consistent_def)


section \<open>Facts about dispatch\<close>

lemma vip_cb_lookup: "getCommand vip_cb_state (toLowerCase (stripLeadingSlashes ''/VIP'')) = Some vip_cb_meta"
  by (simp add: getCommand_def strip_VIP lower_VIP jsmap_get_def vip_cb_state_def)

lemma handle_found:
  assumes "getCommand s (normalizeName name) = Some meta"
  shows "handlePlayerCommand kainure sendWebhook now s ev name =
     (case callbackStep kainure meta ev of
        (fx1, False) \<Rightarrow> (False, fx1)
      | (fx1, True) \<Rightarrow> (case webhookStep sendWebhook now s meta ev of (fx2, ok) \<Rightarrow> (ok, fx1 @ fx2)))"
  using assms by (simp add: handlePlayerCommand_def normalizeName_def)

text \<open>A callback that fails with a value whose \<open>message\<close> can be read does not stop the
  webhook, and the dispatch reports \<open>true\<close>; a callback that fails with \<open>null\<close> or
  \<open>undefined\<close> ends the dispatch at once with \<open>false\<close>.\<close>

lemma failing_callback_with_message:
  assumes reg: "getCommand s (normalizeName name) = Some meta"
    and cb: "cmd_callback meta = Some cb" "cb \<noteq> []"
    and host: "kainure = Some h" "callCallback h = Some call"
    and fails: "call cb \<lparr>cp_event = ev, cp_meta = meta\<rparr> = Throws (ThrownValue msg)"
    and wh: "cmd_webhook meta" "getBotById s (cmd_ownerId meta) = Some b"
      "bot_webhook b = Some url" "url \<noteq> []"
    and sent: "sendWebhook url \<lparr>wp_eventName = ''command_trigger'', wp_command = cmd_command meta,
                 wp_event = ev, wp_meta = meta, wp_timestamp = now\<rparr> \<noteq> Throws ThrownNullish"
  shows "handlePlayerCommand kainure sendWebhook now s ev name =
     (True, [CallbackCall cb \<lparr>cp_event = ev, cp_meta = meta\<rparr>,
             WebhookPost url \<lparr>wp_eventName = ''command_trigger'', wp_command = cmd_command meta,
                 wp_event = ev, wp_meta = meta, wp_timestamp = now\<rparr>])"
proof -
  have s1: "callbackStep kainure meta ev = ([CallbackCall cb \<lparr>cp_event = ev, cp_meta = meta\<rparr>], True)"
    using cb host fails by (simp add: callbackStep_def orNull_def Let_def handlerCompletes_def)
  have s2: "webhookStep sendWebhook now s meta ev =
      ([WebhookPost url \<lparr>wp_eventName = ''command_trigger'', wp_command = cmd_command meta,
                 wp_event = ev, wp_meta = meta, wp_timestamp = now\<rparr>], True)"
    using wh sent
    by (auto simp: webhookStep_def orNull_def Let_def handlerCompletes_def
        split: outcome.splits js_thrown.splits)
  show ?thesis by (simp add: handle_found [OF reg] s1 s2)
qed

lemma failing_callback_nullish:
  assumes reg: "getCommand s (normalizeName name) = Some meta"
    and cb: "cmd_callback meta = Some cb" "cb \<noteq> []"
    and host: "kainure = Some h" "callCallback h = Some call"
    and fails: "call cb \<lparr>cp_event = ev, cp_meta = meta\<rparr> = Throws ThrownNullish"
  shows "handlePlayerCommand kainure sendWebhook now s ev name =
     (False, [CallbackCall cb \<lparr>cp_event = ev, cp_meta = meta\<rparr>])"
proof -
  have s1: "callbackStep kainure meta ev = ([CallbackCall cb \<lparr>cp_event = ev, cp_meta = meta\<rparr>], False)"
    using cb host fails by (simp add: callbackStep_def orNull_def Let_def handlerCompletes_def)
  show ?thesis by (simp add: handle_found [OF reg] s1)
qed


section \<open>Facts about persistence\<close>

lemma json_after_saveCommands:
  "json_file (saveCommands False s)
     = Some \<lparr>doc_nextId = None, doc_bots = None, doc_commands = Some (jsmap_values (commands s))\<rparr>"
  by (simp add: saveCommands_def)

lemma json_after_saveToStorage:
  "json_file (saveToStorage False s)
     = Some \<lparr>doc_nextId = Some (nextId s), doc_bots = Some (jsmap_values (bots s)),
              doc_commands = None\<rparr>"
  by (simp add: saveToStorage_def)

lemma fold_loadBot_frame [simp]:
  "commands (fold loadBot bs s) = commands s"
  "json_file (fold loadBot bs s) = json_file s"
  "sqlite_file (fold loadBot bs s) = sqlite_file s"
  by (induction bs arbitrary: s) (simp_all add: loadBot_def)

lemma fold_loadBotRow_frame [simp]:
  "commands (fold loadBotRow bs s) = commands s"
  "json_file (fold loadBotRow bs s) = json_file s"
  "sqlite_file (fold loadBotRow bs s) = sqlite_file s"
  by (induction bs arbitrary: s) (simp_all add: loadBotRow_def)

lemma fold_loadCommand_frame [simp]:
  "bots (fold loadCommand cs s) = bots s"
  "json_file (fold loadCommand cs s) = json_file s"
  "sqlite_file (fold loadCommand cs s) = sqlite_file s"
  by (induction cs arbitrary: s) (simp_all add: loadCommand_def)

lemma loadFromStorage_frame [simp]:
  "commands (loadFromStorage q s) = commands s"
  "json_file (loadFromStorage q s) = json_file s"
  "sqlite_file (loadFromStorage q s) = sqlite_file s"
  by (simp_all add: loadFromStorage_def split: option.splits)

lemma initPersistence_frame [simp]: "bots (initPersistence q s) = bots s"
  by (simp add: initPersistence_def split: option.splits)

text \<open>On the flat-document backend the later of the two saves decides what a restart
  finds: after \<open>saveCommands\<close> no identity comes back, after \<open>saveToStorage\<close> no
  command.\<close>

lemma flat_document_last_writer_wins:
  "bots (startup False (json_file (saveCommands False (saveToStorage False s))) sf) = []"
  "commands (startup False (json_file (saveToStorage False (saveCommands False s))) sf) = []"
  by (simp_all add: startup_def json_after_saveCommands json_after_saveToStorage)
     (simp_all add: loadFromStorage_def initPersistence_def)

lemma fold_sql_replace_fresh:
  "distinct (map fst m) \<Longrightarrow> set (map fst t) \<inter> set (map fst m) = {} \<Longrightarrow>
   fold (\<lambda>(k, v) t. sql_replace k v t) m t = t @ m"
proof (induction m arbitrary: t)
  case Nil
  then show ?case by simp
next
  case (Cons p m)
  obtain k v where p: "p = (k, v)" by (cases p)
  from Cons.prems p have nk: "k \<notin> fst ` set t" by auto
  then have r: "sql_replace k v t = t @ [(k, v)]"
    by (auto simp: sql_replace_def filter_id_conv)
  have "fold (\<lambda>(k, v) t. sql_replace k v t) m (t @ [(k, v)]) = (t @ [(k, v)]) @ m"
    by (rule Cons.IH) (use Cons.prems p in auto)
  with r p show ?case by simp
qed

lemma jsmap_set_fresh: "k \<notin> fst ` set m \<Longrightarrow> jsmap_set k v m = m @ [(k, v)]"
  by (induction m) auto

lemma load_rows_bots:
  "distinct (map fst rows) \<Longrightarrow> \<forall>(i, b) \<in> set rows. bot_id b = i \<Longrightarrow>
   set (map fst (bots st)) \<inter> set (map fst rows) = {} \<Longrightarrow>
   bots (fold loadBotRow (map snd rows) st) = bots st @ rows"
proof (induction rows arbitrary: st)
  case Nil
  then show ?case by simp
next
  case (Cons r rows)
  obtain i b where r: "r = (i, b)" by (cases r)
  from Cons.prems r have ib: "bot_id b = i" and fresh: "i \<notin> fst ` set (bots st)" by auto
  have b': "bots (loadBotRow b st) = bots st @ [(i, b)]"
    using fresh ib by (simp add: loadBotRow_def jsmap_set_fresh)
  have "bots (fold loadBotRow (map snd rows) (loadBotRow b st)) = bots (loadBotRow b st) @ rows"
    by (rule Cons.IH) (use Cons.prems r b' in auto)
  then show ?case using r b' by simp
qed

lemma load_rows_commands:
  "distinct (map fst rows) \<Longrightarrow> \<forall>(n, c) \<in> set rows. cmd_command c = n \<Longrightarrow>
   set (map fst (commands st)) \<inter> set (map fst rows) = {} \<Longrightarrow>
   commands (fold loadCommand (map snd rows) st) = commands st @ rows"
proof (induction rows arbitrary: st)
  case Nil
  then show ?case by simp
next
  case (Cons r rows)
  obtain n c where r: "r = (n, c)" by (cases r)
  from Cons.prems r have nc: "cmd_command c = n" and fresh: "n \<notin> fst ` set (commands st)" by auto
  have c': "commands (loadCommand c st) = commands st @ [(n, c)]"
    using fresh nc by (simp add: loadCommand_def jsmap_set_fresh)
  have "commands (fold loadCommand (map snd rows) (loadCommand c st))
      = commands (loadCommand c st) @ rows"
    by (rule Cons.IH) (use Cons.prems r c' in auto)
  then show ?case using r c' by simp
qed

text \<open>From a database file that does not exist yet, the sqlite backend gives back both
  maps, entry for entry and in order.\<close>

lemma sqlite_roundtrip_fresh:
  assumes "distinct (map fst (bots s))" and "\<forall>(i, b) \<in> set (bots s). bot_id b = i"
    and "distinct (map fst (commands s))" and "\<forall>(n, c) \<in> set (commands s). cmd_command c = n"
    and "sqlite_file s = None"
  shows "bots (startup True jf (sqlite_file (saveCommands True (saveToStorage True s)))) = bots s"
    and "commands (startup True jf (sqlite_file (saveCommands True (saveToStorage True s))))
           = commands s"
proof -
  have f: "sqlite_file (saveCommands True (saveToStorage True s))
      = Some \<lparr>tbl_bots = bots s, tbl_commands = commands s\<rparr>"
    using assms
    by (simp add: saveCommands_def saveToStorage_def sql_open_def Let_def fold_sql_replace_fresh)
  show "bots (startup True jf (sqlite_file (saveCommands True (saveToStorage True s)))) = bots s"
    using assms(1,2)
    by (simp add: f startup_def loadFromStorage_def load_rows_bots)
  show "commands (startup True jf (sqlite_file (saveCommands True (saveToStorage True s))))
           = commands s"
    using assms(3,4)
    by (simp add: f startup_def initPersistence_def load_rows_commands)
qed

text \<open>\<open>REPLACE INTO\<close> never removes a row: a command deleted from the registry is still
  in the table, and the next start loads it again.\<close>

lemma sqlite_keeps_deleted_rows:
  "commands (fst (deleteCommand True
       (fst (createCommand True ''t2'' two_bots ''tok-shop'' (Text ''/VIP'') '''' None True))
       ''vip'')) = []
   \<and> commands (startup True None (sqlite_file (fst (deleteCommand True
       (fst (createCommand True ''t2'' two_bots ''tok-shop'' (Text ''/VIP'') '''' None True))
       ''vip'')))) = [(''vip'', vip_meta)]"
  by (simp add: createCommand_def two_bots_tokens strip_VIP lower_VIP Let_def orNull_def
        jsmap_has_def two_bots_sel)
     (simp add: deleteCommand_def lower_VIP attachCommandToBot_def removeCommandFromBot_def
        getBotById_def jsmap_get_def jsmap_delete_def saveToStorage_def saveCommands_def
        sql_open_def sql_replace_def startup_def loadFromStorage_def initPersistence_def Let_def
        loadCommand_def loadBotRow_def two_bots_def shop_def guest_def vip_meta_def)



section \<open>Failed creation changes nothing\<close>

text \<open>
  Claim C4. When the token resolves to no identity, \<open>createCommand\<close> fails with
  \<open>InvalidToken\<close> and the whole state (registry, identities, files) is the one it started
  from; and whenever \<open>createCommand\<close> fails, the error is one of \<open>InvalidToken\<close>,
  \<open>InvalidName\<close>, \<open>DuplicateName\<close> and the state is unchanged.
\<close>

theorem createCommand_failure_atomic:
  "(getBotByToken s token = None \<longrightarrow>
      createCommand sqlite3 now s token command description callback webhook
        = (s, Inl InvalidToken))
   \<and> (\<forall>e. snd (createCommand sqlite3 now s token command description callback webhook) = Inl e \<longrightarrow>
         fst (createCommand sqlite3 now s token command description callback webhook) = s
         \<and> e \<in> {InvalidToken, InvalidName, DuplicateName})"
  by (auto simp: createCommand_def Let_def split: option.splits name_arg.splits if_splits)

theorem createCommand_failure_atomic_witness:
  "getBotByToken two_bots ''nobody'' = None
   \<and> createCommand False ''t2'' two_bots ''nobody'' (Text ''vip'') '''' None True
       = (two_bots, Inl InvalidToken)
   \<and> snd (createCommand False ''t2'' two_bots ''tok-shop'' NonText '''' None True) = Inl InvalidName
   \<and> fst (createCommand False ''t2'' two_bots ''tok-shop'' NonText '''' None True) = two_bots"
  using createCommand_failure_atomic
      [of two_bots "''nobody''" False "''t2''" "Text ''vip''" "''''" None True]
    createCommand_failure_atomic
      [of two_bots "''tok-shop''" False "''t2''" NonText "''''" None True]
  by (simp add: two_bots_tokens createCommand_def)


section \<open>Dispatch of an unregistered command\<close>

text \<open>
  Claim C7. When the normalised command name is not a key of the registry,
  \<open>handlePlayerCommand\<close> resolves to \<open>false\<close> and makes no call: no callback, no
  webhook.
\<close>

theorem handle_unregistered:
  "\<not> jsmap_has (commands s) (normalizeName commandName) \<Longrightarrow>
   handlePlayerCommand kainure sendWebhook now s ev commandName = (False, [])"
  by (simp add: handlePlayerCommand_def getCommand_def normalizeName_def toLowerCase_idem
      jsmap_has_get)

theorem handle_unregistered_witness:
  "\<not> jsmap_has (commands vip_cb_state) (normalizeName ''/Shop'')
   \<and> handlePlayerCommand (Some returning_host) (\<lambda>url payload. Returns) ''t3'' vip_cb_state ann ''/Shop''
       = (False, [])
   \<and> handlePlayerCommand (Some returning_host) (\<lambda>url payload. Returns) ''t3'' vip_cb_state ann ''/VIP''
       = (True, [CallbackCall ''OnVipActivate'' \<lparr>cp_event = ann, cp_meta = vip_cb_meta\<rparr>,
                 WebhookPost ''http://x/hook'' vip_webhook_payload])"
proof -
  have h: "\<not> jsmap_has (commands vip_cb_state) (normalizeName ''/Shop'')"
    by (simp add: normalizeName_def strip_Shop lower_Shop vip_cb_state_def jsmap_has_def)
  have cb: "orNull (cmd_callback vip_cb_meta) = Some ''OnVipActivate''"
    by (simp add: vip_cb_meta_def orNull_def)
  have step1: "callbackStep (Some returning_host) vip_cb_meta ann
      = ([CallbackCall ''OnVipActivate'' \<lparr>cp_event = ann, cp_meta = vip_cb_meta\<rparr>], True)"
    by (simp add: callbackStep_def cb returning_host_def Let_def)
  have step2: "webhookStep (\<lambda>url payload. Returns) ''t3'' vip_cb_state vip_cb_meta ann
      = ([WebhookPost ''http://x/hook'' vip_webhook_payload], True)"
    by (simp add: webhookStep_def vip_cb_meta_def vip_meta_def vip_cb_state_def vip_state_def
        getBotById_def jsmap_get_def shop_def orNull_def Let_def vip_webhook_payload_def)
  have found: "handlePlayerCommand (Some returning_host) (\<lambda>url payload. Returns) ''t3'' vip_cb_state
       ann ''/VIP''
       = (True, [CallbackCall ''OnVipActivate'' \<lparr>cp_event = ann, cp_meta = vip_cb_meta\<rparr>,
                 WebhookPost ''http://x/hook'' vip_webhook_payload])"
    by (simp add: handlePlayerCommand_def vip_cb_lookup step1 step2)
  show ?thesis
    using h found
      handle_unregistered [OF h, of "Some returning_host" "\<lambda>url payload. Returns" "''t3''" ann]
    by simp
qed


section \<open>Console execution is refused without a privileged role\<close>

text \<open>
  Claim C9. \<open>runCommandAsConsole\<close> fails with \<open>InvalidToken\<close> when the token resolves
  to no identity, and with \<open>PermissionDenied\<close> when it resolves to an identity whose role
  is neither \<open>admin\<close> nor \<open>executor\<close>; in both cases nothing has been executed, whatever
  the command text, the host runtime and the shell are.
\<close>

theorem runConsole_denied:
  "(getBotByToken s token = None \<longrightarrow>
      runCommandAsConsole kainure execSync s cmd token = ([], Inl InvalidToken))
   \<and> (\<forall>b. getBotByToken s token = Some b \<and> bot_role b \<notin> {''admin'', ''executor''} \<longrightarrow>
         runCommandAsConsole kainure execSync s cmd token = ([], Inl PermissionDenied))"
  by (auto simp: runCommandAsConsole_def)

theorem runConsole_denied_witness:
  "getBotByToken two_bots ''nobody'' = None
   \<and> runCommandAsConsole None (\<lambda>c. Inr ''ok'') two_bots ''say hi'' ''nobody''
       = ([], Inl InvalidToken)
   \<and> getBotByToken two_bots ''tok-guest'' = Some guest
   \<and> bot_role guest \<notin> {''admin'', ''executor''}
   \<and> runCommandAsConsole None (\<lambda>c. Inr ''ok'') two_bots ''say hi'' ''tok-guest''
       = ([], Inl PermissionDenied)"
  using runConsole_denied [of two_bots "''nobody''" None "\<lambda>c. Inr ''ok''" "''say hi''"]
    runConsole_denied [of two_bots "''tok-guest''" None "\<lambda>c. Inr ''ok''" "''say hi''"]
  by (simp add: two_bots_tokens guest_def)


section \<open>A name made of slashes is registered under the empty key\<close>

text \<open>
  Claim C10. The name check of \<open>createCommand\<close> looks at the raw name, so a non-empty
  name made of slash characters only (such as \<open>/\<close>) passes it, normalises to the empty
  string and, the empty key being free, is registered under the empty key.
\<close>

theorem create_slash_only:
  assumes "getBotByToken s token = Some b" and "raw \<noteq> []" and "set raw \<subseteq> {CHR ''/''}"
    and "\<not> jsmap_has (commands s) []"
  shows "\<exists>meta.
      snd (createCommand sqlite3 now s token (Text raw) description callback webhook) = Inr meta
      \<and> cmd_command meta = []
      \<and> jsmap_get
          (commands (fst (createCommand sqlite3 now s token (Text raw) description callback webhook)))
          [] = Some meta"
  using assms
  by (simp add: createCommand_def Let_def strip_all_slashes toLowerCase_def jsmap_get_set)

theorem create_slash_only_witness:
  "getBotByToken two_bots ''tok-shop'' = Some shop \<and> ''/'' \<noteq> [] \<and> set ''/'' \<subseteq> {CHR ''/''}
   \<and> \<not> jsmap_has (commands two_bots) []
   \<and> (\<exists>meta.
        snd (createCommand False ''t2'' two_bots ''tok-shop'' (Text ''/'') '''' None False) = Inr meta
      \<and> cmd_command meta = []
      \<and> jsmap_get
          (commands (fst (createCommand False ''t2'' two_bots ''tok-shop'' (Text ''/'') '''' None False)))
          [] = Some meta)"
proof -
  have h1: "getBotByToken two_bots ''tok-shop'' = Some shop" by (rule two_bots_tokens)
  have h2: "''/'' \<noteq> []" by simp
  have h3: "set ''/'' \<subseteq> {CHR ''/''}" by simp
  have h4: "\<not> jsmap_has (commands two_bots) []" by (simp add: two_bots_def jsmap_has_def)
  show ?thesis using h1 h2 h3 h4 create_slash_only [OF h1 h2 h3 h4] by blast
qed

section \<open>Lookup by a spelling with a leading slash\<close>

text \<open>
  Claim C2 (the code departs from it). \<open>createCommand\<close> stores the name \<open>/VIP\<close> under
  the key \<open>vip\<close>. \<open>getCommand\<close> lower-cases its argument but does not strip leading
  slashes, so the spelling \<open>VIP\<close> finds the definition and the spelling \<open>/VIP\<close>, the
  very name the command was created with, finds nothing.
\<close>

theorem get_misses_slash_spelling:
  "createCommand False ''t2'' two_bots ''tok-shop'' (Text ''/VIP'') '''' None True
     = (vip_state, Inr vip_meta)
   \<and> normalizeName ''/VIP'' = ''vip''
   \<and> getCommand vip_state ''VIP'' = Some vip_meta
   \<and> getCommand vip_state ''/VIP'' = None"
  by (simp add: create_vip normalizeName_def strip_VIP lower_VIP getCommand_def jsmap_get_def vip_state_def)


section \<open>Deleting a command\<close>

text \<open>
  Claim C8 (the code departs from it). The command created as \<open>/VIP\<close> is registered
  under \<open>vip\<close>, the normalised form of \<open>/VIP\<close>. \<open>deleteCommand\<close> lower-cases its
  argument but does not strip leading slashes: called with \<open>/VIP\<close> it looks up \<open>/vip\<close>,
  returns \<open>false\<close> and removes nothing, neither from the registry nor from the owner's
  list. Called with \<open>VIP\<close> it returns \<open>true\<close> and removes the command from both.
\<close>

theorem delete_misses_slash_spelling:
  "createCommand False ''t2'' two_bots ''tok-shop'' (Text ''/VIP'') '''' None True
     = (vip_state, Inr vip_meta)
   \<and> normalizeName ''/VIP'' = ''vip''
   \<and> jsmap_has (commands vip_state) (normalizeName ''/VIP'')
   \<and> deleteCommand False vip_state ''/VIP'' = (vip_state, False)
   \<and> deleteCommand False vip_state ''VIP''
       = (vip_state\<lparr>bots := [(1, shop), (2, guest)], commands := [],
            json_file := Some \<lparr>doc_nextId = None, doc_bots = None, doc_commands = Some []\<rparr>\<rparr>, True)"
proof -
  have n: "normalizeName ''/VIP'' = ''vip''"
    by (simp add: normalizeName_def strip_VIP lower_VIP)
  have h: "jsmap_has (commands vip_state) ''vip''"
    by (simp add: vip_state_def jsmap_has_def)
  have miss: "deleteCommand False vip_state ''/VIP'' = (vip_state, False)"
    by (simp add: deleteCommand_def lower_VIP Let_def jsmap_get_def vip_state_def)
  have hit: "deleteCommand False vip_state ''VIP''
       = (vip_state\<lparr>bots := [(1, shop), (2, guest)], commands := [],
            json_file := Some \<lparr>doc_nextId = None, doc_bots = None, doc_commands = Some []\<rparr>\<rparr>, True)"
    by (simp add: deleteCommand_def lower_VIP Let_def jsmap_get_def jsmap_delete_def
        removeCommandFromBot_def getBotById_def saveToStorage_def saveCommands_def jsmap_values_def
        vip_state_def vip_meta_def shop_def)
  from create_vip n h miss hit show ?thesis by simp
qed

text \<open>What \<open>deleteCommand\<close> does in terms of the key it looks up, the lower-cased
  argument: when that key is registered the call returns \<open>true\<close>, the key leaves the
  registry and the list of the owner recorded in the definition, every other identity
  being as before; otherwise the call returns \<open>false\<close> and the state is unchanged.\<close>

lemma deleteCommand_by_lowercase_key:
  "(\<forall>meta. jsmap_get (commands s) (toLowerCase name) = Some meta \<longrightarrow>
      snd (deleteCommand sqlite3 s name) = True
      \<and> commands (fst (deleteCommand sqlite3 s name)) = jsmap_delete (toLowerCase name) (commands s)
      \<and> \<not> jsmap_has (commands (fst (deleteCommand sqlite3 s name))) (toLowerCase name)
      \<and> (\<forall>b. getBotById s (cmd_ownerId meta) = Some b \<longrightarrow>
            getBotById (fst (deleteCommand sqlite3 s name)) (cmd_ownerId meta)
              = Some (b\<lparr>bot_commands := filter (\<lambda>c. c \<noteq> toLowerCase name) (bot_commands b)\<rparr>))
      \<and> (\<forall>b. getBotById (fst (deleteCommand sqlite3 s name)) (cmd_ownerId meta) = Some b \<longrightarrow>
            toLowerCase name \<notin> set (bot_commands b))
      \<and> (\<forall>i. i \<noteq> cmd_ownerId meta \<longrightarrow>
            getBotById (fst (deleteCommand sqlite3 s name)) i = getBotById s i))
   \<and> (jsmap_get (commands s) (toLowerCase name) = None \<longrightarrow>
        deleteCommand sqlite3 s name = (s, False))"
  by (auto simp: deleteCommand_def Let_def removeCommandFromBot_def getBotById_def jsmap_get_set
      jsmap_has_get jsmap_get_delete split: option.splits)


section \<open>Creating the same name twice\<close>

text \<open>
  Claim C5 (as stated it fails). After \<open>/\<close> has been registered, a second call with the
  empty name, which has the same normalised form, is answered with \<open>InvalidName\<close>, not
  \<open>DuplicateName\<close>: the token and the raw name are checked before the registry is.
\<close>

theorem second_create_not_duplicate:
  "snd (createCommand False ''t2'' two_bots ''tok-shop'' (Text ''/'') '''' None False)
     = Inr \<lparr>cmd_command = '''', cmd_description = '''', cmd_ownerId = 1, cmd_callback = None,
            cmd_webhook = False, cmd_created_at = ''t2''\<rparr>
   \<and> normalizeName ''/'' = normalizeName ''''
   \<and> snd (createCommand False ''t3''
            (fst (createCommand False ''t2'' two_bots ''tok-shop'' (Text ''/'') '''' None False))
            ''tok-shop'' (Text '''') '''' None False)
       = Inl InvalidName"
  by (simp add: createCommand_def getBotByToken_def jsmap_values_def two_bots_def shop_def guest_def
      normalizeName_def stripLeadingSlashes_def toLowerCase_def jsmap_has_def Let_def orNull_def
      attachCommandToBot_def getBotById_def jsmap_get_def)

text \<open>
  Claim C5, amended. When a creation has succeeded, every later creation whose name has
  the same normalised form fails and leaves the state unchanged; the error is
  \<open>InvalidToken\<close> when its token resolves to no identity, else \<open>InvalidName\<close> when its
  raw name is empty, else \<open>DuplicateName\<close>.
\<close>

theorem second_create_fails:
  assumes "createCommand sqlite3 now s token (Text raw) description callback webhook = (s', Inr meta)"
    and "normalizeName raw = normalizeName raw2"
  shows "createCommand sqlite3 now2 s' token2 (Text raw2) description2 callback2 webhook2
     = (s', Inl (if getBotByToken s' token2 = None then InvalidToken
                 else if raw2 = [] then InvalidName else DuplicateName))"
  using create_registers [OF assms(1)] assms(2)
  by (auto simp: createCommand_def Let_def normalizeName_def split: option.splits)

theorem second_create_fails_witness:
  "createCommand False ''t2'' two_bots ''tok-shop'' (Text ''/VIP'') '''' None True
     = (vip_state, Inr vip_meta)
   \<and> normalizeName ''/VIP'' = normalizeName ''//vip''
   \<and> createCommand False ''t3'' vip_state ''tok-guest'' (Text ''//vip'') ''again'' None False
       = (vip_state, Inl DuplicateName)"
proof -
  have n: "normalizeName ''/VIP'' = normalizeName ''//vip''"
    by (simp add: normalizeName_def stripLeadingSlashes_def lower_VIP)
  have t: "getBotByToken vip_state ''tok-guest'' \<noteq> None"
    by (simp add: getBotByToken_def vip_state_def jsmap_values_def shop_def guest_def)
  show ?thesis
    using create_vip n t
      second_create_fails [OF create_vip n, of "''t3''" "''tok-guest''" "''again''" None False]
    by simp
qed


section \<open>The registry and the owned-command lists stay in step\<close>

text \<open>
  Claim C3 (as stated it fails). \<open>attachCommandToBot\<close> and \<open>removeCommandFromBot\<close>
  change an identity's list and nothing else, so each of them, called on its own, takes
  a state where the invariant holds to one where it does not.
\<close>

theorem attach_alone_breaks_sync:
  "registry_in_sync two_bots
   \<and> \<not> registry_in_sync (fst (attachCommandToBot False two_bots 1 ''vip''))
   \<and> registry_in_sync vip_state
   \<and> \<not> registry_in_sync (fst (removeCommandFromBot False vip_state 1 ''vip''))"
  by (simp add: registry_in_sync_def names_in_use_def owners_of_def jsmap_values_def jsmap_has_def
      attachCommandToBot_def removeCommandFromBot_def getBotById_def jsmap_get_def saveToStorage_def
      Let_def two_bots_def vip_state_def vip_meta_def shop_def guest_def)

text \<open>
  Claim C3, amended. In a consistent state the invariant holds, and \<open>createCommand\<close> and
  \<open>deleteCommand\<close> lead from a consistent state to a consistent state, where the invariant
  holds again: the name is in the registry exactly when it is in the list of exactly one
  identity, the one named by the definition's \<open>ownerId\<close>. A creation whose token
  resolves, whose raw name is a non-empty string and whose normalised name is free
  succeeds and adds the name to both structures: it is a key of the registry and in the
  list of the owner. A deletion that finds the definition, under the lower-cased
  argument, returns \<open>true\<close> and removes the name from both: it is no key of the
  registry and in no identity's list.
\<close>

theorem registry_ops_keep_sync:
  assumes "consistent s"
  shows "registry_in_sync s
    \<and> consistent (fst (createCommand sqlite3 now s token command description callback webhook))
    \<and> registry_in_sync (fst (createCommand sqlite3 now s token command description callback webhook))
    \<and> (\<forall>b raw. getBotByToken s token = Some b \<and> command = Text raw \<and> raw \<noteq> []
            \<and> \<not> jsmap_has (commands s) (normalizeName raw) \<longrightarrow>
          (\<exists>meta. snd (createCommand sqlite3 now s token command description callback webhook) = Inr meta
             \<and> cmd_command meta = normalizeName raw \<and> cmd_ownerId meta = bot_id b
             \<and> jsmap_get
                  (commands (fst (createCommand sqlite3 now s token command description callback webhook)))
                  (normalizeName raw) = Some meta
             \<and> (\<exists>b'. getBotById
                         (fst (createCommand sqlite3 now s token command description callback webhook))
                         (bot_id b) = Some b'
                    \<and> normalizeName raw \<in> set (bot_commands b'))))
    \<and> consistent (fst (deleteCommand sqlite3 s name))
    \<and> registry_in_sync (fst (deleteCommand sqlite3 s name))
    \<and> (\<forall>meta. jsmap_get (commands s) (toLowerCase name) = Some meta \<longrightarrow>
          snd (deleteCommand sqlite3 s name) = True
          \<and> \<not> jsmap_has (commands (fst (deleteCommand sqlite3 s name))) (toLowerCase name)
          \<and> owners_of (fst (deleteCommand sqlite3 s name)) (toLowerCase name) = [])"
proof -
  note c = assms
  have 1: "registry_in_sync s" by (rule consistent_in_sync [OF c])
  have 2: "consistent (fst (createCommand sqlite3 now s token command description callback webhook))"
    by (rule createCommand_consistent [OF c])
  have 3: "registry_in_sync (fst (createCommand sqlite3 now s token command description callback webhook))"
    by (rule consistent_in_sync [OF 2])
  have 4: "\<exists>meta. snd (createCommand sqlite3 now s token command description callback webhook) = Inr meta
             \<and> cmd_command meta = normalizeName raw \<and> cmd_ownerId meta = bot_id b
             \<and> jsmap_get
                  (commands (fst (createCommand sqlite3 now s token command description callback webhook)))
                  (normalizeName raw) = Some meta
             \<and> (\<exists>b'. getBotById
                         (fst (createCommand sqlite3 now s token command description callback webhook))
                         (bot_id b) = Some b'
                    \<and> normalizeName raw \<in> set (bot_commands b'))"
    if "getBotByToken s token = Some b" "command = Text raw" "raw \<noteq> []"
      "\<not> jsmap_has (commands s) (normalizeName raw)" for b raw
    using create_adds_to_both [OF c that(1) that(3) that(4)] that(2) by simp
  have 5: "consistent (fst (deleteCommand sqlite3 s name))"
    by (rule deleteCommand_consistent [OF c])
  have 6: "registry_in_sync (fst (deleteCommand sqlite3 s name))"
    by (rule consistent_in_sync [OF 5])
  have 7: "snd (deleteCommand sqlite3 s name) = True
          \<and> \<not> jsmap_has (commands (fst (deleteCommand sqlite3 s name))) (toLowerCase name)
          \<and> owners_of (fst (deleteCommand sqlite3 s name)) (toLowerCase name) = []"
    if "jsmap_get (commands s) (toLowerCase name) = Some meta" for meta
    by (rule delete_removes_from_both [OF c that])
  from 1 2 3 4 5 6 7 show ?thesis by blast
qed

theorem registry_ops_keep_sync_witness:
  "consistent vip_state
   \<and> getBotByToken vip_state ''tok-guest'' = Some guest
   \<and> \<not> jsmap_has (commands vip_state) (normalizeName ''/Shop'')
   \<and> jsmap_get (commands vip_state) (toLowerCase ''VIP'') = Some vip_meta
   \<and> registry_in_sync vip_state
   \<and> registry_in_sync
        (fst (createCommand False ''t3'' vip_state ''tok-guest'' (Text ''/Shop'') '''' None False))
   \<and> jsmap_has
        (commands (fst (createCommand False ''t3'' vip_state ''tok-guest'' (Text ''/Shop'') '''' None False)))
        ''shop''
   \<and> (\<exists>b'. getBotById
               (fst (createCommand False ''t3'' vip_state ''tok-guest'' (Text ''/Shop'') '''' None False))
               2 = Some b'
          \<and> ''shop'' \<in> set (bot_commands b'))
   \<and> registry_in_sync (fst (deleteCommand False vip_state ''VIP''))
   \<and> snd (deleteCommand False vip_state ''VIP'') = True
   \<and> \<not> jsmap_has (commands (fst (deleteCommand False vip_state ''VIP''))) ''vip''
   \<and> owners_of (fst (deleteCommand False vip_state ''VIP'')) ''vip'' = []"
proof -
  have t: "getBotByToken vip_state ''tok-guest'' = Some guest"
    by (simp add: getBotByToken_def vip_state_def jsmap_values_def shop_def guest_def)
  have n: "normalizeName ''/Shop'' = ''shop''"
    by (simp add: normalizeName_def strip_Shop lower_Shop)
  have f: "\<not> jsmap_has (commands vip_state) (normalizeName ''/Shop'')"
    by (simp add: n vip_state_def jsmap_has_def)
  have r: "jsmap_get (commands vip_state) (toLowerCase ''VIP'') = Some vip_meta"
    by (simp add: lower_VIP vip_state_def jsmap_get_def)
  have g: "bot_id guest = 2" by (simp add: guest_def)
  show ?thesis
    using consistent_vip_state t f r
      registry_ops_keep_sync [OF consistent_vip_state, of False "''t3''" "''tok-guest''"
        "Text ''/Shop''" "''''" None False "''VIP''"]
    by (auto simp: n g lower_VIP jsmap_has_get)
qed


section \<open>A failing callback and the webhook\<close>

text \<open>
  Claim C6 (the code departs from it). The command \<open>vip\<close> has a callback and an enabled
  webhook, and its owner has a webhook address. When the callback rejects with
  \<open>undefined\<close>, the handler's own \<open>e.message\<close> throws, the outer \<open>catch\<close> takes over:
  no webhook is sent and the dispatch resolves to \<open>false\<close>. When it rejects with an
  error object, the webhook is sent and the dispatch resolves to \<open>true\<close>.
\<close>

theorem nullish_rejection_skips_webhook:
  "handlePlayerCommand (Some (failing_host ThrownNullish)) (\<lambda>url payload. Returns) ''t3''
       vip_cb_state ann ''/VIP''
     = (False, [CallbackCall ''OnVipActivate'' \<lparr>cp_event = ann, cp_meta = vip_cb_meta\<rparr>])
   \<and> handlePlayerCommand (Some (failing_host (ThrownValue ''boom''))) (\<lambda>url payload. Returns) ''t3''
       vip_cb_state ann ''/VIP''
     = (True, [CallbackCall ''OnVipActivate'' \<lparr>cp_event = ann, cp_meta = vip_cb_meta\<rparr>,
               WebhookPost ''http://x/hook'' vip_webhook_payload])"
proof -
  have cb: "orNull (cmd_callback vip_cb_meta) = Some ''OnVipActivate''"
    by (simp add: vip_cb_meta_def orNull_def)
  have step1: "callbackStep (Some (failing_host e)) vip_cb_meta ann
      = ([CallbackCall ''OnVipActivate'' \<lparr>cp_event = ann, cp_meta = vip_cb_meta\<rparr>],
         handlerCompletes e)" for e
    by (simp add: callbackStep_def cb failing_host_def Let_def)
  have step2: "webhookStep (\<lambda>url payload. Returns) ''t3'' vip_cb_state vip_cb_meta ann
      = ([WebhookPost ''http://x/hook'' vip_webhook_payload], True)"
    by (simp add: webhookStep_def vip_cb_meta_def vip_meta_def vip_cb_state_def vip_state_def
        getBotById_def jsmap_get_def shop_def orNull_def Let_def vip_webhook_payload_def)
  show ?thesis
    by (simp add: handlePlayerCommand_def vip_cb_lookup step1 step2 handlerCompletes_def)
qed


section \<open>Saving and loading again\<close>

text \<open>
  Claim C1 (the code departs from it). On the flat-document backend both saves write the
  same file, each replacing what the other wrote. With the order of \<open>createCommand\<close>
  (identities, then commands) a restart finds the command and no identity; with the
  other order it finds no command.
\<close>

theorem flat_document_roundtrip_loses_bots:
  "bots vip_state = [(1, shop\<lparr>bot_commands := [''vip'']\<rparr>), (2, guest)]
   \<and> commands vip_state = [(''vip'', vip_meta)]
   \<and> bots (startup False (json_file (saveCommands False (saveToStorage False vip_state))) None) = []
   \<and> commands (startup False (json_file (saveCommands False (saveToStorage False vip_state))) None)
       = [(''vip'', vip_meta)]
   \<and> commands (startup False (json_file (saveToStorage False (saveCommands False vip_state))) None) = []"
proof -
  have a: "bots vip_state = [(1, shop\<lparr>bot_commands := [''vip'']\<rparr>), (2, guest)]"
    and b: "commands vip_state = [(''vip'', vip_meta)]"
    by (simp_all add: vip_state_def)
  have c: "bots (startup False (json_file (saveCommands False (saveToStorage False vip_state))) None)
      = []"
    by (rule flat_document_last_writer_wins)
  have d: "commands (startup False (json_file (saveCommands False (saveToStorage False vip_state))) None)
      = [(''vip'', vip_meta)]"
    by (simp add: startup_def json_after_saveCommands initPersistence_def b jsmap_values_def
        loadCommand_def vip_meta_def)
  have e: "commands (startup False (json_file (saveToStorage False (saveCommands False vip_state))) None)
      = []"
    by (rule flat_document_last_writer_wins)
  from a b c d e show ?thesis by simp
qed

end
